theory Spec2Isabelle
  imports Main "HOL-Library.Word" "HOL-Library.Multiset"
begin

section \<open>Data model of main.cpp\<close>

text \<open>
  The C++ type \<open>int\<close> is a 32-bit two's complement integer: a \<open>32 word\<close>, whose
  \<open>+\<close> wraps modulo \<open>2 ^ 32\<close> and which \<open>sint\<close> reads as a signed value.
  \<open>std::vector<int>\<close> is a list of such words. \<open>size_t\<close> is a natural number
  below \<open>2 ^ 64\<close>; every multiplication and increment of the source on \<open>size_t\<close>
  is written with its reduction modulo \<open>2 ^ 64\<close>.
\<close>

type_synonym int32 = "32 word"

definition size_t :: "nat \<Rightarrow> nat" where
  "size_t x = x mod 2 ^ 64"

definition is_size_t :: "nat \<Rightarrow> bool" where
  "is_size_t x = (x < 2 ^ 64)"

text \<open>
  What the C++ leaves undefined or throws is an error value of the embedding:
  an integer division by zero, a subscript outside its vector, and the two exceptions
  of \<open>std::stoi\<close>.
\<close>

datatype error = DivByZero | OutOfBounds | InvalidArgument | OutOfRange

text \<open>
  The objects that a call reaches through its reference parameters: the array
  (\<open>const std::vector<int>& arr\<close>) and the accumulator (\<open>int& sum\<close>, or
  \<open>std::atomic<int>& sum\<close>). A function of the embedding takes them and returns
  them as they are after the call. For the four top-level functions, \<open>sum_of\<close> of
  the result is the returned \<open>int\<close> and \<open>arr_of\<close> is the caller's array after the
  call.
\<close>

record sum_state =
  arr_of :: "int32 list"
  sum_of :: int32

text \<open>The objects shared by the workers of the reduce strategy.\<close>

record reduce_state =
  arr_in :: "int32 list"
  partial_sums :: "int32 list"

section \<open>The summation loop\<close>

text \<open>
  The loop \<open>for (size_t i = start; i < end; ++i) acc += arr[i];\<close> of lines 12-14,
  25-27, 56-58 and 87-89. \<open>arr[i]\<close> with \<open>i\<close> outside the vector is undefined in
  C++ and is the error \<open>OutOfBounds\<close> here. Inside the loop \<open>i < end\<close> holds and
  \<open>end\<close> is a \<open>size_t\<close>, so \<open>++i\<close> does not wrap.
\<close>

function sum_loop :: "int32 list \<Rightarrow> nat \<Rightarrow> nat \<Rightarrow> int32 \<Rightarrow> error + int32" where
  "sum_loop arr i end acc =
     (if i < end
      then (if i < length arr then sum_loop arr (Suc i) end (acc + arr ! i)
            else Inl OutOfBounds)
      else Inr acc)"
  by pat_completeness auto
termination
  by (relation "measure (\<lambda>(arr, i, end, acc). end - i)") auto

declare sum_loop.simps [simp del]

subsection \<open>Single-threaded baseline (lines 10-16)\<close>

definition single_thread_sum :: "int32 list \<Rightarrow> error + sum_state" where
  "single_thread_sum arr =
     (case sum_loop arr 0 (length arr) 0 of
        Inl e \<Rightarrow> Inl e
      | Inr s \<Rightarrow> Inr \<lparr>arr_of = arr, sum_of = s\<rparr>)"

section \<open>Partition of the index range\<close>

text \<open>
  Lines 19-22, repeated at 50-53 and 81-84:
  \<^verbatim>\<open>
  size_t chunk_size = n / num_threads;
  size_t start = thread_idx * chunk_size;
  size_t end = (thread_idx == num_threads - 1) ? n : (thread_idx + 1) * chunk_size;
  \<close>
  The division is undefined for \<open>num_threads = 0\<close>; past that check
  \<open>num_threads - 1\<close> does not wrap.
\<close>

definition chunk_bounds :: "nat \<Rightarrow> nat \<Rightarrow> nat \<Rightarrow> error + (nat \<times> nat)" where
  "chunk_bounds n num_threads thread_idx =
     (if num_threads = 0 then Inl DivByZero
      else
        let chunk_size = n div num_threads;
            start = size_t (thread_idx * chunk_size);
            end = (if thread_idx = num_threads - 1 then n
                   else size_t (size_t (thread_idx + 1) * chunk_size))
        in Inr (start, end))"

text \<open>
  The local sum of one worker: the chunk bounds followed by the loop, with the
  accumulator starting at 0 (lines 19-27).
\<close>

definition local_sum :: "nat \<Rightarrow> int32 list \<Rightarrow> nat \<Rightarrow> error + int32" where
  "local_sum thread_idx arr num_threads =
     (case chunk_bounds (length arr) num_threads thread_idx of
        Inl e \<Rightarrow> Inl e
      | Inr (start, end) \<Rightarrow> sum_loop arr start end 0)"

section \<open>Workers and schedules\<close>

text \<open>
  A worker reads the array and its own local variables only, until its update of
  shared memory: \<open>sum += local_sum\<close> under the mutex (line 29),
  \<open>sum.fetch_add\<close> (line 59), or the writes to its own slot of \<open>partial_sums\<close>
  (lines 86-88), which no other worker reads or writes. The first two are atomic with
  respect to the other workers and the third touches memory of its own, so a run of
  the \<open>num_threads\<close> workers is the order in which they commit their updates:
  a schedule, a list holding every index below \<open>num_threads\<close> once. The
  statements below hold for every schedule. Joining all threads (lines 43-45, 74-76,
  104-106) ends the run. Starting a thread and allocating a vector are taken to
  succeed.
\<close>

definition schedule :: "nat \<Rightarrow> nat list \<Rightarrow> bool" where
  "schedule num_threads sched = (mset sched = mset [0..<num_threads])"

fun run_threads :: "(nat \<Rightarrow> 'm \<Rightarrow> error + 'm) \<Rightarrow> nat list \<Rightarrow> 'm \<Rightarrow> error + 'm" where
  "run_threads worker [] m = Inr m"
| "run_threads worker (idx # sched) m =
     (case worker idx m of
        Inl e \<Rightarrow> Inl e
      | Inr m' \<Rightarrow> run_threads worker sched m')"

subsection \<open>Lock strategy (lines 18-47)\<close>

definition thread_sum_lock :: "nat \<Rightarrow> sum_state \<Rightarrow> nat \<Rightarrow> error + sum_state" where
  "thread_sum_lock thread_idx m num_threads =
     (case local_sum thread_idx (arr_of m) num_threads of
        Inl e \<Rightarrow> Inl e
      | Inr l \<Rightarrow> Inr (m\<lparr>sum_of := sum_of m + l\<rparr>))"

definition multi_thread_sum_lock :: "int32 list \<Rightarrow> nat \<Rightarrow> nat list \<Rightarrow> error + sum_state" where
  "multi_thread_sum_lock arr num_threads sched =
     run_threads (\<lambda>idx m. thread_sum_lock idx m num_threads) sched
       \<lparr>arr_of = arr, sum_of = 0\<rparr>"

subsection \<open>Atomic strategy (lines 49-78)\<close>

definition thread_sum_atomic :: "nat \<Rightarrow> sum_state \<Rightarrow> nat \<Rightarrow> error + sum_state" where
  "thread_sum_atomic thread_idx m num_threads =
     (case local_sum thread_idx (arr_of m) num_threads of
        Inl e \<Rightarrow> Inl e
      | Inr l \<Rightarrow> Inr (m\<lparr>sum_of := sum_of m + l\<rparr>))"

text \<open>Line 66 divides by \<open>num_threads\<close> before any thread is started.\<close>

definition multi_thread_sum_atomic :: "int32 list \<Rightarrow> nat \<Rightarrow> nat list \<Rightarrow> error + sum_state" where
  "multi_thread_sum_atomic arr num_threads sched =
     (if num_threads = 0 then Inl DivByZero
      else run_threads (\<lambda>idx m. thread_sum_atomic idx m num_threads) sched
             \<lparr>arr_of = arr, sum_of = 0\<rparr>)"

subsection \<open>Reduce strategy (lines 80-113)\<close>

text \<open>
  \<open>thread_sum_reduce\<close> overwrites the \<open>int\<close> behind \<open>partial_sum\<close> with its local
  sum. The lambda of lines 99-101 passes slot \<open>i\<close> of \<open>partial_sums\<close>, with
  \<open>i\<close> the worker's own index.
\<close>

definition thread_sum_reduce :: "nat \<Rightarrow> int32 list \<Rightarrow> int32 \<Rightarrow> nat \<Rightarrow> error + int32" where
  "thread_sum_reduce thread_idx arr partial_sum num_threads =
     local_sum thread_idx arr num_threads"

definition reduce_worker :: "nat \<Rightarrow> nat \<Rightarrow> reduce_state \<Rightarrow> error + reduce_state" where
  "reduce_worker num_threads i m =
     (if i < length (partial_sums m)
      then (case thread_sum_reduce i (arr_in m) (partial_sums m ! i) num_threads of
              Inl e \<Rightarrow> Inl e
            | Inr ps \<Rightarrow> Inr (m\<lparr>partial_sums := (partial_sums m)[i := ps]\<rparr>))
      else Inl OutOfBounds)"

text \<open>The loop \<open>for (int ps : partial_sums) total_sum += ps;\<close> of lines 108-111.\<close>

fun total_loop :: "int32 list \<Rightarrow> int32 \<Rightarrow> int32" where
  "total_loop [] total_sum = total_sum"
| "total_loop (ps # rest) total_sum = total_loop rest (total_sum + ps)"

definition multi_thread_sum_reduce :: "int32 list \<Rightarrow> nat \<Rightarrow> nat list \<Rightarrow> error + sum_state" where
  "multi_thread_sum_reduce arr num_threads sched =
     (if num_threads = 0 then Inl DivByZero
      else
        (case run_threads (reduce_worker num_threads) sched
                \<lparr>arr_in = arr, partial_sums = replicate num_threads 0\<rparr> of
           Inl e \<Rightarrow> Inl e
         | Inr m \<Rightarrow> Inr \<lparr>arr_of = arr_in m, sum_of = total_loop (partial_sums m) 0\<rparr>))"

section \<open>Command line (lines 115-124)\<close>

text \<open>
  \<open>zen::cmd_args\<close> comes from kaizen.h, which is not among the sources: its two
  member functions used by \<open>parse_args\<close> are taken as parameters. \<open>is_present\<close>
  tells whether an option occurs on the command line, \<open>get_options\<close> gives the
  values that follow it.
\<close>

record cmd_args =
  is_present :: "string \<Rightarrow> bool"
  get_options :: "string \<Rightarrow> string list"

text \<open>
  \<open>std::stoi\<close> of the C++ standard library, as the standard defines it through
  \<open>strtol\<close> with base 10: leading white space is skipped, an optional sign and the
  longest run of decimal digits are read, and what follows is ignored. It throws
  \<open>std::invalid_argument\<close> when there is no digit to read and \<open>std::out_of_range\<close>
  when the value is not an \<open>int\<close>.
\<close>

definition isspace :: "char \<Rightarrow> bool" where
  "isspace c = (c \<in> set [CHR '' '', CHR 0x09, CHR 0x0A, CHR 0x0B, CHR 0x0C, CHR 0x0D])"

definition isdigit :: "char \<Rightarrow> bool" where
  "isdigit c = (c \<in> set ''0123456789'')"

fun digits_value :: "nat \<Rightarrow> string \<Rightarrow> nat" where
  "digits_value v [] = v"
| "digits_value v (c # cs) = digits_value (10 * v + (of_char c - 48)) cs"

definition stoi :: "string \<Rightarrow> error + int32" where
  "stoi str =
     (let s = dropWhile isspace str;
          negative = (case s of [] \<Rightarrow> False | c # r \<Rightarrow> c = CHR ''-'');
          body = (case s of [] \<Rightarrow> []
                  | c # r \<Rightarrow> if c = CHR ''-'' \<or> c = CHR ''+'' then r else s);
          digits = takeWhile isdigit body
      in if digits = [] then Inl InvalidArgument
         else
           let v = (if negative then - int (digits_value 0 digits)
                    else int (digits_value 0 digits))
           in if v < - (2 ^ 31) \<or> 2 ^ 31 - 1 < v then Inl OutOfRange
              else Inr (word_of_int v))"

text \<open>
  The result of \<open>parse_args\<close>: the pair \<open>(size, threads)\<close> it returns, and the lines
  it has logged. \<open>std::thread::hardware_concurrency()\<close> is a parameter: an
  \<open>unsigned int\<close>, which is 0 when the number of hardware threads cannot be
  determined, converted to \<open>int\<close> by the return statement. Subscript \<open>[0]\<close> of
  an empty result of \<open>get_options\<close> is undefined.
\<close>

record config =
  cfg_log :: "string list"
  cfg_size :: int32
  cfg_threads :: int32

definition parse_args :: "32 word \<Rightarrow> cmd_args \<Rightarrow> error + config" where
  "parse_args hardware_concurrency args =
     (if \<not> is_present args ''--size'' \<or> \<not> is_present args ''--thread''
      then Inr \<lparr>cfg_log = [''Warning: Missing required arguments. Using default values.''],
                cfg_size = 1000000, cfg_threads = hardware_concurrency\<rparr>
      else
        (case get_options args ''--size'' of
           [] \<Rightarrow> Inl OutOfBounds
         | s # _ \<Rightarrow>
             (case stoi s of
                Inl e \<Rightarrow> Inl e
              | Inr size' \<Rightarrow>
                  (case get_options args ''--thread'' of
                     [] \<Rightarrow> Inl OutOfBounds
                   | t # _ \<Rightarrow>
                       (case stoi t of
                          Inl e \<Rightarrow> Inl e
                        | Inr threads \<Rightarrow>
                            Inr \<lparr>cfg_log = [], cfg_size = size', cfg_threads = threads\<rparr>)))))"

subsection \<open>Example command lines\<close>

text \<open>The command line without options: \<^verbatim>\<open>./sum\<close>.\<close>

definition no_options :: cmd_args where
  "no_options = \<lparr>is_present = (\<lambda>opt. False), get_options = (\<lambda>opt. [])\<rparr>"

text \<open>The command line \<^verbatim>\<open>./sum --size abc --thread 4\<close>.\<close>

definition size_abc :: cmd_args where
  "size_abc =
     \<lparr>is_present = (\<lambda>opt. opt = ''--size'' \<or> opt = ''--thread''),
      get_options = (\<lambda>opt. if opt = ''--size'' then [''abc'']
                           else if opt = ''--thread'' then [''4''] else [])\<rparr>"

text \<open>The command line \<^verbatim>\<open>./sum --size 1000 --thread 4\<close>.\<close>

definition size_1000_thread_4 :: cmd_args where
  "size_1000_thread_4 =
     \<lparr>is_present = (\<lambda>opt. opt = ''--size'' \<or> opt = ''--thread''),
      get_options = (\<lambda>opt. if opt = ''--size'' then [''1000'']
                           else if opt = ''--thread'' then [''4''] else [])\<rparr>"

text \<open>The command line \<^verbatim>\<open>./sum --size 1000 --thread x4\<close>.\<close>

definition thread_x4 :: cmd_args where
  "thread_x4 =
     \<lparr>is_present = (\<lambda>opt. opt = ''--size'' \<or> opt = ''--thread''),
      get_options = (\<lambda>opt. if opt = ''--size'' then [''1000'']
                           else if opt = ''--thread'' then [''x4''] else [])\<rparr>"

text \<open>The command line \<^verbatim>\<open>./sum --size 1000\<close>.\<close>

definition size_only :: cmd_args where
  "size_only =
     \<lparr>is_present = (\<lambda>opt. opt = ''--size''),
      get_options = (\<lambda>opt. if opt = ''--size'' then [''1000''] else [])\<rparr>"

section \<open>Notions used in the statements\<close>

text \<open>The sum of the elements at the indices of \<open>[a, b)\<close>.\<close>

definition range_sum :: "int32 list \<Rightarrow> nat \<Rightarrow> nat \<Rightarrow> int32" where
  "range_sum arr a b = sum_list (map ((!) arr) [a..<b])"

text \<open>The sum over the chunk of worker \<open>idx\<close>, without the reductions modulo \<open>2 ^ 64\<close>.\<close>

definition chunk_sum :: "int32 list \<Rightarrow> nat \<Rightarrow> nat \<Rightarrow> int32" where
  "chunk_sum arr T idx =
     range_sum arr (idx * (length arr div T))
       (if idx = T - 1 then length arr else (idx + 1) * (length arr div T))"

text \<open>The set of indices of the chunk of worker \<open>idx\<close>.\<close>

definition chunk :: "nat \<Rightarrow> nat \<Rightarrow> nat \<Rightarrow> nat set" where
  "chunk n T idx =
     (case chunk_bounds n T idx of
        Inl e \<Rightarrow> {}
      | Inr (start, end) \<Rightarrow> {start..<end})"

section \<open>The loop and the chunk bounds\<close>

lemma sum_loop_eq:
  "e \<le> length arr \<Longrightarrow> sum_loop arr i e acc = Inr (acc + sum_list (map ((!) arr) [i..<e]))"
proof (induction arr i e acc rule: sum_loop.induct)
  case (1 arr i e acc)
  show ?case
  proof (cases "i < e")
    case True
    with "1.prems" have il: "i < length arr" by simp
    have "sum_loop arr i e acc = sum_loop arr (Suc i) e (acc + arr ! i)"
      using True il by (subst sum_loop.simps) simp
    also have "\<dots> = Inr (acc + arr ! i + sum_list (map ((!) arr) [Suc i..<e]))"
      using "1.IH" [OF True il "1.prems"] .
    also have "\<dots> = Inr (acc + sum_list (map ((!) arr) [i..<e]))"
      using True by (simp add: upt_conv_Cons add.assoc)
    finally show ?thesis .
  next
    case False
    then show ?thesis by (subst sum_loop.simps) simp
  qed
qed

lemma sum_loop_all: "sum_loop arr 0 (length arr) 0 = Inr (sum_list arr)"
  by (simp add: sum_loop_eq map_nth)

lemma chunk_mult_le:
  assumes "0 < T" "k \<le> T"
  shows "k * (n div T) \<le> (n::nat)"
proof -
  have "k * (n div T) \<le> T * (n div T)" using assms by simp
  also have "\<dots> \<le> n" by simp
  finally show ?thesis .
qed

lemma chunk_bounds_eq:
  assumes "0 < T" "idx < T" "is_size_t n"
  shows "chunk_bounds n T idx =
           Inr (idx * (n div T), if idx = T - 1 then n else (idx + 1) * (n div T))"
proof -
  have n: "n < 2 ^ 64" using assms(3) by (simp add: is_size_t_def)
  have "idx * (n div T) \<le> n" using assms by (intro chunk_mult_le) simp_all
  then have s: "size_t (idx * (n div T)) = idx * (n div T)"
    using n by (simp add: size_t_def)
  have e: "size_t (size_t (idx + 1) * (n div T)) = (idx + 1) * (n div T)" if "idx \<noteq> T - 1"
  proof (cases "n div T = 0")
    case True
    then show ?thesis by (simp add: size_t_def)
  next
    case False
    then have "T \<le> n" by (metis div_less not_le)
    then have "idx + 1 < 2 ^ 64" using assms(2) n by simp
    then have a: "size_t (idx + 1) = idx + 1" by (simp add: size_t_def)
    have "(idx + 1) * (n div T) \<le> n" using assms that by (intro chunk_mult_le) simp_all
    then show ?thesis using n a by (simp add: size_t_def)
  qed
  show ?thesis using assms(1) s e by (simp add: chunk_bounds_def Let_def)
qed

section \<open>The chunks add up to the whole array\<close>

lemma range_sum_append:
  "a \<le> b \<Longrightarrow> b \<le> c \<Longrightarrow> range_sum arr a b + range_sum arr b c = range_sum arr a c"
proof -
  assume ab: "a \<le> b" and bc: "b \<le> c"
  then have "[a..<c] = [a..<b] @ [b..<c]"
    by (metis le_Suc_ex upt_add_eq_append)
  then show ?thesis by (simp add: range_sum_def)
qed

lemma range_sum_all: "range_sum arr 0 (length arr) = sum_list arr"
  by (simp add: range_sum_def map_nth)

lemma local_sum_eq:
  assumes "0 < T" "idx < T" "is_size_t (length arr)"
  shows "local_sum idx arr T = Inr (chunk_sum arr T idx)"
proof -
  have "(idx + 1) * (length arr div T) \<le> length arr"
    using assms by (intro chunk_mult_le) simp_all
  then have "(if idx = T - 1 then length arr else (idx + 1) * (length arr div T)) \<le> length arr"
    by simp
  then show ?thesis
    using assms
    by (simp add: local_sum_def chunk_bounds_eq sum_loop_eq chunk_sum_def range_sum_def
             del: One_nat_def)
qed

lemma chunk_sums_prefix:
  assumes "0 < T"
  shows "k \<le> T - 1 \<Longrightarrow>
         sum_list (map (chunk_sum arr T) [0..<k]) = range_sum arr 0 (k * (length arr div T))"
proof (induction k)
  case 0
  then show ?case by (simp add: range_sum_def)
next
  case (Suc k)
  then have k: "k \<noteq> T - 1" "k \<le> T - 1" by simp_all
  have "sum_list (map (chunk_sum arr T) [0..<Suc k]) =
        range_sum arr 0 (k * (length arr div T)) + chunk_sum arr T k"
    using Suc.IH k by simp
  also have "chunk_sum arr T k =
        range_sum arr (k * (length arr div T)) (Suc k * (length arr div T))"
    using k by (simp add: chunk_sum_def)
  also have "range_sum arr 0 (k * (length arr div T)) + \<dots> =
        range_sum arr 0 (Suc k * (length arr div T))"
    by (rule range_sum_append) simp_all
  finally show ?case .
qed

lemma chunk_sums_total:
  assumes "0 < T"
  shows "sum_list (map (chunk_sum arr T) [0..<T]) = sum_list arr"
proof -
  obtain k where T: "T = Suc k" using assms by (cases T) simp_all
  have le: "k * (length arr div T) \<le> length arr"
    using assms T by (intro chunk_mult_le) simp_all
  have "sum_list (map (chunk_sum arr T) [0..<T]) =
        sum_list (map (chunk_sum arr T) [0..<k]) + chunk_sum arr T k"
    by (simp add: T)
  also have "sum_list (map (chunk_sum arr T) [0..<k]) = range_sum arr 0 (k * (length arr div T))"
    using chunk_sums_prefix [OF assms, of k arr] T by simp
  also have "chunk_sum arr T k = range_sum arr (k * (length arr div T)) (length arr)"
    by (simp add: chunk_sum_def T)
  also have "range_sum arr 0 (k * (length arr div T)) + \<dots> = range_sum arr 0 (length arr)"
    using le by (intro range_sum_append) simp_all
  finally show ?thesis by (simp add: range_sum_all)
qed

lemma sum_list_schedule:
  fixes f :: "nat \<Rightarrow> int32"
  assumes "schedule T sched"
  shows "sum_list (map f sched) = sum_list (map f [0..<T])"
proof -
  have "sum_list (map f sched) = sum_mset (image_mset f (mset sched))"
    by (simp flip: sum_mset_sum_list)
  also have "\<dots> = sum_mset (image_mset f (mset [0..<T]))"
    using assms by (simp add: schedule_def)
  also have "\<dots> = sum_list (map f [0..<T])"
    by (simp flip: sum_mset_sum_list)
  finally show ?thesis .
qed

lemma schedule_set: "schedule T sched \<Longrightarrow> set sched = {..<T}"
  by (metis schedule_def mset_eq_setD set_upt lessThan_atLeast0)

lemma schedule_total:
  assumes "0 < T" "schedule T sched"
  shows "sum_list (map (chunk_sum arr T) sched) = sum_list arr"
  using assms by (simp add: sum_list_schedule chunk_sums_total)

section \<open>Runs of the workers\<close>

lemma thread_sum_lock_eq:
  assumes "0 < T" "idx < T" "is_size_t (length (arr_of m))"
  shows "thread_sum_lock idx m T = Inr (m\<lparr>sum_of := sum_of m + chunk_sum (arr_of m) T idx\<rparr>)"
  using assms by (simp add: thread_sum_lock_def local_sum_eq)

lemma thread_sum_atomic_lock: "thread_sum_atomic idx m T = thread_sum_lock idx m T"
  by (simp add: thread_sum_atomic_def thread_sum_lock_def)

lemma run_lock_eq:
  assumes "0 < T" "is_size_t (length (arr_of m))" "\<forall>idx \<in> set sched. idx < T"
  shows "run_threads (\<lambda>idx m. thread_sum_lock idx m T) sched m =
           Inr (m\<lparr>sum_of := sum_of m + sum_list (map (chunk_sum (arr_of m) T) sched)\<rparr>)"
  using assms
proof (induction sched arbitrary: m)
  case Nil
  then show ?case by simp
next
  case (Cons idx sched)
  let ?m' = "m\<lparr>sum_of := sum_of m + chunk_sum (arr_of m) T idx\<rparr>"
  have step: "thread_sum_lock idx m T = Inr ?m'"
    using Cons.prems by (intro thread_sum_lock_eq) simp_all
  have "run_threads (\<lambda>idx m. thread_sum_lock idx m T) sched ?m' =
          Inr (?m'\<lparr>sum_of := sum_of ?m' + sum_list (map (chunk_sum (arr_of ?m') T) sched)\<rparr>)"
    using Cons.prems by (intro Cons.IH) simp_all
  then show ?case using step by (simp add: add.assoc)
qed

lemma total_loop_eq: "total_loop ps acc = acc + sum_list ps"
  by (induction ps arbitrary: acc) (simp_all add: add.assoc)

lemma fold_slots_length:
  "length (fold (\<lambda>i ps. ps[i := f i]) sched ps) = length ps"
  by (induction sched arbitrary: ps) simp_all

lemma fold_slots_nth:
  "j < length ps \<Longrightarrow>
   fold (\<lambda>i ps. ps[i := f i]) sched ps ! j = (if j \<in> set sched then f j else ps ! j)"
  by (induction sched arbitrary: ps) (auto simp: nth_list_update)

lemma fold_slots_schedule:
  assumes "schedule T sched" "length ps = T"
  shows "fold (\<lambda>i ps. ps[i := f i]) sched ps = map f [0..<T]"
proof (rule nth_equalityI)
  show "length (fold (\<lambda>i ps. ps[i := f i]) sched ps) = length (map f [0..<T])"
    using assms by (simp add: fold_slots_length)
next
  fix j assume "j < length (fold (\<lambda>i ps. ps[i := f i]) sched ps)"
  then have j: "j < T" using assms by (simp add: fold_slots_length)
  then have "j \<in> set sched" using schedule_set [OF assms(1)] by simp
  then show "fold (\<lambda>i ps. ps[i := f i]) sched ps ! j = map f [0..<T] ! j"
    using j assms by (simp add: fold_slots_nth)
qed

lemma reduce_worker_eq:
  assumes "0 < T" "i < T" "is_size_t (length (arr_in m))" "length (partial_sums m) = T"
  shows "reduce_worker T i m =
           Inr (m\<lparr>partial_sums := (partial_sums m)[i := chunk_sum (arr_in m) T i]\<rparr>)"
  using assms by (simp add: reduce_worker_def thread_sum_reduce_def local_sum_eq)

lemma run_reduce_eq:
  assumes "0 < T" "is_size_t (length (arr_in m))" "\<forall>idx \<in> set sched. idx < T"
    "length (partial_sums m) = T"
  shows "run_threads (reduce_worker T) sched m =
           Inr (m\<lparr>partial_sums :=
                  fold (\<lambda>i ps. ps[i := chunk_sum (arr_in m) T i]) sched (partial_sums m)\<rparr>)"
  using assms
proof (induction sched arbitrary: m)
  case Nil
  then show ?case by simp
next
  case (Cons idx sched)
  let ?m' = "m\<lparr>partial_sums := (partial_sums m)[idx := chunk_sum (arr_in m) T idx]\<rparr>"
  have step: "reduce_worker T idx m = Inr ?m'"
    using Cons.prems by (intro reduce_worker_eq) simp_all
  have "run_threads (reduce_worker T) sched ?m' =
          Inr (?m'\<lparr>partial_sums :=
                 fold (\<lambda>i ps. ps[i := chunk_sum (arr_in ?m') T i]) sched (partial_sums ?m')\<rparr>)"
    using Cons.prems by (intro Cons.IH) simp_all
  then show ?case using step by simp
qed

lemma single_thread_sum_eq:
  "single_thread_sum arr = Inr \<lparr>arr_of = arr, sum_of = sum_list arr\<rparr>"
  by (simp add: single_thread_sum_def sum_loop_all)

lemma multi_thread_sum_lock_eq:
  assumes "0 < T" "is_size_t (length arr)" "schedule T sched"
  shows "multi_thread_sum_lock arr T sched = Inr \<lparr>arr_of = arr, sum_of = sum_list arr\<rparr>"
proof -
  have "\<forall>idx \<in> set sched. idx < T" using schedule_set [OF assms(3)] by simp
  then show ?thesis
    using assms by (simp add: multi_thread_sum_lock_def run_lock_eq schedule_total)
qed

lemma multi_thread_sum_atomic_eq:
  assumes "0 < T" "is_size_t (length arr)" "schedule T sched"
  shows "multi_thread_sum_atomic arr T sched = Inr \<lparr>arr_of = arr, sum_of = sum_list arr\<rparr>"
proof -
  have "\<forall>idx \<in> set sched. idx < T" using schedule_set [OF assms(3)] by simp
  then show ?thesis
    using assms
    by (simp add: multi_thread_sum_atomic_def thread_sum_atomic_lock run_lock_eq schedule_total)
qed

lemma multi_thread_sum_reduce_eq:
  assumes "0 < T" "is_size_t (length arr)" "schedule T sched"
  shows "multi_thread_sum_reduce arr T sched = Inr \<lparr>arr_of = arr, sum_of = sum_list arr\<rparr>"
proof -
  have "\<forall>idx \<in> set sched. idx < T" using schedule_set [OF assms(3)] by simp
  then show ?thesis
    using assms
    by (simp add: multi_thread_sum_reduce_def run_reduce_eq fold_slots_schedule
        total_loop_eq chunk_sums_total)
qed

section \<open>Equivalence of the four strategies\<close>

text \<open>
  Claim C1 (equivalence). For every array and every thread count \<open>T\<close> with
  \<open>1 \<le> T \<le> size + 8\<close>, the four summation functions agree, whatever the order in
  which the workers of each parallel strategy commit: each returns what
  \<open>single_thread_sum\<close> returns, which is the sum of the elements in \<open>int\<close>
  arithmetic.
\<close>

theorem strategies_agree:
  assumes "is_size_t (length arr)" "1 \<le> T" "T \<le> length arr + 8"
    and "schedule T lock_order" "schedule T atomic_order" "schedule T reduce_order"
  shows "single_thread_sum arr = Inr \<lparr>arr_of = arr, sum_of = sum_list arr\<rparr>
       \<and> multi_thread_sum_lock arr T lock_order = single_thread_sum arr
       \<and> multi_thread_sum_atomic arr T atomic_order = single_thread_sum arr
       \<and> multi_thread_sum_reduce arr T reduce_order = single_thread_sum arr"
proof -
  have T: "0 < T" using assms(2) by simp
  show ?thesis
    using assms(1,4-6) T
    by (simp add: single_thread_sum_eq multi_thread_sum_lock_eq multi_thread_sum_atomic_eq
        multi_thread_sum_reduce_eq)
qed

theorem strategies_agree_witness:
  "is_size_t (length [1, 2, 3 :: int32]) \<and> (1::nat) \<le> 8 \<and> (8::nat) \<le> length [1, 2, 3 :: int32] + 8
   \<and> schedule 8 [0, 1, 2, 3, 4, 5, 6, 7] \<and> schedule 8 [7, 6, 5, 4, 3, 2, 1, 0]
   \<and> schedule 8 [3, 0, 7, 1, 6, 2, 5, 4]
   \<and> single_thread_sum [1, 2, 3] = Inr \<lparr>arr_of = [1, 2, 3], sum_of = 6\<rparr>
   \<and> multi_thread_sum_lock [1, 2, 3] 8 [0, 1, 2, 3, 4, 5, 6, 7] = single_thread_sum [1, 2, 3]
   \<and> multi_thread_sum_atomic [1, 2, 3] 8 [7, 6, 5, 4, 3, 2, 1, 0] = single_thread_sum [1, 2, 3]
   \<and> multi_thread_sum_reduce [1, 2, 3] 8 [3, 0, 7, 1, 6, 2, 5, 4] = single_thread_sum [1, 2, 3]"
proof -
  have h1: "is_size_t (length [1, 2, 3 :: int32])" by (simp add: is_size_t_def)
  have h2: "(1::nat) \<le> 8" by simp
  have h3: "(8::nat) \<le> length [1, 2, 3 :: int32] + 8" by simp
  have s1: "schedule 8 [0, 1, 2, 3, 4, 5, 6, 7]" by code_simp
  have s2: "schedule 8 [7, 6, 5, 4, 3, 2, 1, 0]" by (simp add: schedule_def eval_nat_numeral)
  have s3: "schedule 8 [3, 0, 7, 1, 6, 2, 5, 4]" by (simp add: schedule_def upt_rec eval_nat_numeral)
  show ?thesis
    using strategies_agree [OF h1 h2 h3 s1 s2 s3] h1 h2 h3 s1 s2 s3 by simp
qed

section \<open>The chunks partition the index range\<close>

lemma chunk_eq:
  assumes "0 < T" "idx < T" "is_size_t n"
  shows "chunk n T idx =
           {idx * (n div T) ..< (if idx = T - 1 then n else (idx + 1) * (n div T))}"
  using assms by (simp add: chunk_def chunk_bounds_eq del: One_nat_def)

lemma chunk_subset:
  assumes "0 < T" "idx < T" "is_size_t n"
  shows "chunk n T idx \<subseteq> {0..<n}"
proof -
  have "(idx + 1) * (n div T) \<le> n"
    using assms by (intro chunk_mult_le) simp_all
  then show ?thesis
    using assms by (auto simp: chunk_eq simp del: One_nat_def)
qed

lemma chunk_disjoint_less:
  assumes "0 < T" "i < j" "j < T" "is_size_t n"
  shows "chunk n T i \<inter> chunk n T j = {}"
proof -
  have i: "i \<noteq> T - 1" "i < T" using assms by simp_all
  have "(i + 1) * (n div T) \<le> j * (n div T)"
    using assms(2) by (intro mult_le_mono1) simp
  then show ?thesis
    using assms i by (auto simp: chunk_eq simp del: One_nat_def)
qed

lemma chunk_disjoint:
  assumes "0 < T" "i < T" "j < T" "i \<noteq> j" "is_size_t n"
  shows "chunk n T i \<inter> chunk n T j = {}"
proof (cases "i < j")
  case True
  then show ?thesis using assms by (intro chunk_disjoint_less) simp_all
next
  case False
  then have "j < i" using assms(4) by simp
  then have "chunk n T j \<inter> chunk n T i = {}"
    using assms by (intro chunk_disjoint_less) simp_all
  then show ?thesis by blast
qed

lemma chunk_covers:
  assumes "0 < T" "is_size_t n" "x < n"
  shows "\<exists>i<T. x \<in> chunk n T i"
proof (cases "x div (n div T) < T - 1 \<and> 0 < n div T")
  case True
  let ?c = "n div T" and ?q = "x div (n div T)"
  have q: "?q < T" "?q \<noteq> T - 1" using True by arith+
  have lo: "?q * ?c \<le> x" by simp
  have "x < ?c + ?q * ?c" using True by (intro dividend_less_div_times) simp
  then have hi: "x < (?q + 1) * ?c" by simp
  have "x \<in> chunk n T ?q"
    using assms q lo hi by (simp add: chunk_eq del: One_nat_def)
  then show ?thesis using q by blast
next
  case False
  have "(T - 1) * (n div T) \<le> x"
  proof (cases "0 < n div T")
    case True
    with False have "T - 1 \<le> x div (n div T)" by simp
    then have "(T - 1) * (n div T) \<le> x div (n div T) * (n div T)"
      by (intro mult_le_mono1)
    also have "\<dots> \<le> x" by simp
    finally show ?thesis .
  next
    case False
    then show ?thesis by simp
  qed
  then have "x \<in> chunk n T (T - 1)"
    using assms by (simp add: chunk_eq del: One_nat_def)
  then show ?thesis using assms(1) by (intro exI [of _ "T - 1"]) simp
qed

lemma chunk_union:
  assumes "0 < T" "is_size_t n"
  shows "(\<Union>i<T. chunk n T i) = {0..<n}"
proof
  show "(\<Union>i<T. chunk n T i) \<subseteq> {0..<n}"
    using chunk_subset [OF assms(1) _ assms(2)] by blast
next
  show "{0..<n} \<subseteq> (\<Union>i<T. chunk n T i)"
  proof
    fix x assume "x \<in> {0..<n}"
    then obtain i where "i < T" "x \<in> chunk n T i"
      using chunk_covers [OF assms, of x] by auto
    then show "x \<in> (\<Union>i<T. chunk n T i)" by auto
  qed
qed

text \<open>
  Claim C2 (partition coverage). For every \<open>n\<close> and every \<open>T \<ge> 1\<close>, the
  \<open>T\<close> chunks computed by lines 20-22 lie inside \<open>[0, n)\<close>, are pairwise
  disjoint, their union is exactly \<open>[0, n)\<close>, and the end of the last chunk is
  \<open>n\<close>.
\<close>

theorem chunks_partition:
  assumes "1 \<le> T" "is_size_t n"
  shows "(\<forall>i<T. \<exists>start end. chunk_bounds n T i = Inr (start, end) \<and> start \<le> end \<and> end \<le> n)
       \<and> (\<forall>i<T. \<forall>j<T. i \<noteq> j \<longrightarrow> chunk n T i \<inter> chunk n T j = {})
       \<and> (\<Union>i<T. chunk n T i) = {0..<n}
       \<and> (\<exists>start. chunk_bounds n T (T - 1) = Inr (start, n))"
proof -
  have T: "0 < T" using assms(1) by simp
  have a: "\<exists>start end. chunk_bounds n T i = Inr (start, end) \<and> start \<le> end \<and> end \<le> n"
    if "i < T" for i
  proof -
    have le: "(i + 1) * (n div T) \<le> n" "i * (n div T) \<le> n"
      using T that by (intro chunk_mult_le; simp)+
    have "chunk_bounds n T i =
            Inr (i * (n div T), if i = T - 1 then n else (i + 1) * (n div T))"
      using T that assms(2) by (rule chunk_bounds_eq)
    then show ?thesis
      using le by (cases "i = T - 1") (simp_all del: One_nat_def)
  qed
  have b: "chunk n T i \<inter> chunk n T j = {}" if "i < T" "j < T" "i \<noteq> j" for i j
    using T that assms(2) by (intro chunk_disjoint) simp_all
  have c: "(\<Union>i<T. chunk n T i) = {0..<n}"
    using T assms(2) by (rule chunk_union)
  have d: "\<exists>start. chunk_bounds n T (T - 1) = Inr (start, n)"
    using T assms(2) by (simp add: chunk_bounds_eq del: One_nat_def)
  show ?thesis using a b c d by blast
qed

theorem chunks_partition_witness:
  "(1::nat) \<le> 3 \<and> is_size_t 10
   \<and> chunk_bounds 10 3 0 = Inr (0, 3) \<and> chunk_bounds 10 3 1 = Inr (3, 6)
   \<and> chunk_bounds 10 3 2 = Inr (6, 10)
   \<and> chunk 10 3 0 \<inter> chunk 10 3 1 = {} \<and> chunk 10 3 0 \<inter> chunk 10 3 2 = {}
   \<and> chunk 10 3 1 \<inter> chunk 10 3 2 = {}
   \<and> (\<Union>i<3. chunk 10 3 i) = {0..<10}"
proof -
  have h1: "(1::nat) \<le> 3" by simp
  have h2: "is_size_t 10" by (simp add: is_size_t_def)
  have b: "chunk_bounds 10 3 0 = Inr (0, 3)" "chunk_bounds 10 3 1 = Inr (3, 6)"
    "chunk_bounds 10 3 2 = Inr (6, 10)"
    by (simp_all add: chunk_bounds_def size_t_def)
  have d: "chunk 10 3 0 \<inter> chunk 10 3 1 = {}" "chunk 10 3 0 \<inter> chunk 10 3 2 = {}"
    "chunk 10 3 1 \<inter> chunk 10 3 2 = {}"
    using chunks_partition [OF h1 h2] by simp_all
  have u: "(\<Union>i<3. chunk 10 3 i) = {0..<10}"
    using chunks_partition [OF h1 h2] by blast
  show ?thesis using h1 h2 b d u by simp
qed

section \<open>Safety, degenerate sizes and overflow\<close>

lemma sum_list_word_of_int:
  "sum_list (arr :: int32 list) = word_of_int (\<Sum>x\<leftarrow>arr. sint x)"
  by (induction arr) simp_all

lemma uint_sum_list:
  "uint (sum_list (arr :: int32 list)) = (\<Sum>x\<leftarrow>arr. sint x) mod 2 ^ 32"
  by (simp add: sum_list_word_of_int uint_word_of_int)

text \<open>
  Claim C3 (safety). For every array and every \<open>T \<ge> 1\<close>, none of the four
  summation functions reaches an error of the embedding, whatever the order in which
  the workers commit: no division by zero and no subscript outside the array. Every
  worker's chunk ends at or before the length of the array, and its loop returns.
\<close>

theorem no_error_reachable:
  assumes "1 \<le> T" "is_size_t (length arr)"
    and "schedule T lock_order" "schedule T atomic_order" "schedule T reduce_order"
  shows "(\<exists>r. single_thread_sum arr = Inr r)
       \<and> (\<exists>r. multi_thread_sum_lock arr T lock_order = Inr r)
       \<and> (\<exists>r. multi_thread_sum_atomic arr T atomic_order = Inr r)
       \<and> (\<exists>r. multi_thread_sum_reduce arr T reduce_order = Inr r)
       \<and> (\<forall>idx<T. \<exists>start end l.
             chunk_bounds (length arr) T idx = Inr (start, end) \<and> end \<le> length arr
             \<and> local_sum idx arr T = Inr l)"
proof -
  have T: "0 < T" using assms(1) by simp
  have w: "\<exists>start end l.
             chunk_bounds (length arr) T idx = Inr (start, end) \<and> end \<le> length arr
             \<and> local_sum idx arr T = Inr l" if "idx < T" for idx
  proof -
    have le: "(idx + 1) * (length arr div T) \<le> length arr"
      using T that by (intro chunk_mult_le) simp_all
    have "chunk_bounds (length arr) T idx =
            Inr (idx * (length arr div T),
                 if idx = T - 1 then length arr else (idx + 1) * (length arr div T))"
      using T that assms(2) by (rule chunk_bounds_eq)
    moreover have "local_sum idx arr T = Inr (chunk_sum arr T idx)"
      using T that assms(2) by (rule local_sum_eq)
    ultimately show ?thesis
      using le by (cases "idx = T - 1") (simp_all del: One_nat_def)
  qed
  show ?thesis
    using T assms(2-5) w
    by (simp add: single_thread_sum_eq multi_thread_sum_lock_eq multi_thread_sum_atomic_eq
        multi_thread_sum_reduce_eq)
qed

theorem no_error_reachable_witness:
  "(1::nat) \<le> 5 \<and> is_size_t (length [7, 8, 9 :: int32])
   \<and> schedule 5 [4, 3, 2, 1, 0] \<and> schedule 5 [0, 2, 4, 1, 3] \<and> schedule 5 [1, 0, 3, 2, 4]
   \<and> (\<exists>r. single_thread_sum [7, 8, 9] = Inr r)
   \<and> (\<exists>r. multi_thread_sum_lock [7, 8, 9] 5 [4, 3, 2, 1, 0] = Inr r)
   \<and> (\<exists>r. multi_thread_sum_atomic [7, 8, 9] 5 [0, 2, 4, 1, 3] = Inr r)
   \<and> (\<exists>r. multi_thread_sum_reduce [7, 8, 9] 5 [1, 0, 3, 2, 4] = Inr r)"
proof -
  have h1: "(1::nat) \<le> 5" by simp
  have h2: "is_size_t (length [7, 8, 9 :: int32])" by (simp add: is_size_t_def)
  have s1: "schedule 5 [4, 3, 2, 1, 0]" by (simp add: schedule_def eval_nat_numeral)
  have s2: "schedule 5 [0, 2, 4, 1, 3]" by (simp add: schedule_def eval_nat_numeral)
  have s3: "schedule 5 [1, 0, 3, 2, 4]" by (simp add: schedule_def eval_nat_numeral)
  show ?thesis
    using no_error_reachable [OF h1 h2 s1 s2 s3] h1 h2 s1 s2 s3 by simp
qed

text \<open>
  Claim C4 (degenerate sizes). For every \<open>T \<ge> 1\<close>: on the empty array every
  strategy returns 0, and on an array of one element every strategy returns that
  element.
\<close>

theorem degenerate_sizes:
  assumes "1 \<le> T"
    and "schedule T lock_order" "schedule T atomic_order" "schedule T reduce_order"
  shows "single_thread_sum [] = Inr \<lparr>arr_of = [], sum_of = 0\<rparr>
       \<and> multi_thread_sum_lock [] T lock_order = Inr \<lparr>arr_of = [], sum_of = 0\<rparr>
       \<and> multi_thread_sum_atomic [] T atomic_order = Inr \<lparr>arr_of = [], sum_of = 0\<rparr>
       \<and> multi_thread_sum_reduce [] T reduce_order = Inr \<lparr>arr_of = [], sum_of = 0\<rparr>
       \<and> single_thread_sum [x] = Inr \<lparr>arr_of = [x], sum_of = x\<rparr>
       \<and> multi_thread_sum_lock [x] T lock_order = Inr \<lparr>arr_of = [x], sum_of = x\<rparr>
       \<and> multi_thread_sum_atomic [x] T atomic_order = Inr \<lparr>arr_of = [x], sum_of = x\<rparr>
       \<and> multi_thread_sum_reduce [x] T reduce_order = Inr \<lparr>arr_of = [x], sum_of = x\<rparr>"
proof -
  have T: "0 < T" using assms(1) by simp
  have n0: "is_size_t (length ([] :: int32 list))" by (simp add: is_size_t_def)
  have n1: "is_size_t (length [x])" by (simp add: is_size_t_def)
  show ?thesis
    using single_thread_sum_eq [of "[]"] single_thread_sum_eq [of "[x]"]
      multi_thread_sum_lock_eq [OF T n0 assms(2)] multi_thread_sum_lock_eq [OF T n1 assms(2)]
      multi_thread_sum_atomic_eq [OF T n0 assms(3)] multi_thread_sum_atomic_eq [OF T n1 assms(3)]
      multi_thread_sum_reduce_eq [OF T n0 assms(4)] multi_thread_sum_reduce_eq [OF T n1 assms(4)]
    by simp
qed

theorem degenerate_sizes_witness:
  "(1::nat) \<le> 3 \<and> schedule 3 [2, 0, 1] \<and> schedule 3 [1, 2, 0] \<and> schedule 3 [0, 1, 2]
   \<and> multi_thread_sum_lock [] 3 [2, 0, 1] = Inr \<lparr>arr_of = [], sum_of = 0\<rparr>
   \<and> multi_thread_sum_atomic [] 3 [1, 2, 0] = Inr \<lparr>arr_of = [], sum_of = 0\<rparr>
   \<and> multi_thread_sum_reduce [] 3 [0, 1, 2] = Inr \<lparr>arr_of = [], sum_of = 0\<rparr>
   \<and> multi_thread_sum_lock [42] 3 [2, 0, 1] = Inr \<lparr>arr_of = [42], sum_of = 42\<rparr>
   \<and> multi_thread_sum_atomic [42] 3 [1, 2, 0] = Inr \<lparr>arr_of = [42], sum_of = 42\<rparr>
   \<and> multi_thread_sum_reduce [42] 3 [0, 1, 2] = Inr \<lparr>arr_of = [42], sum_of = 42\<rparr>"
proof -
  have h1: "(1::nat) \<le> 3" by simp
  have s1: "schedule 3 [2, 0, 1]" by (simp add: schedule_def eval_nat_numeral)
  have s2: "schedule 3 [1, 2, 0]" by (simp add: schedule_def eval_nat_numeral)
  have s3: "schedule 3 [0, 1, 2]" by (simp add: schedule_def eval_nat_numeral)
  show ?thesis
    using degenerate_sizes [OF h1 s1 s2 s3, of 42] h1 s1 s2 s3 by simp
qed

text \<open>
  Claim C5 (overflow). The four strategies add in \<open>int\<close> arithmetic, which wraps:
  the returned value, read as an unsigned number, is the mathematical sum of the
  signed elements modulo \<open>2 ^ 32\<close>. No strategy reports an overflow, and the three
  parallel strategies return the same wrapped value as the single-threaded baseline.
\<close>

theorem overflow_wraps_identically:
  assumes "1 \<le> T" "is_size_t (length arr)"
    and "schedule T lock_order" "schedule T atomic_order" "schedule T reduce_order"
  shows "\<exists>r. single_thread_sum arr = Inr r
           \<and> uint (sum_of r) = (\<Sum>x\<leftarrow>arr. sint x) mod 2 ^ 32
           \<and> multi_thread_sum_lock arr T lock_order = Inr r
           \<and> multi_thread_sum_atomic arr T atomic_order = Inr r
           \<and> multi_thread_sum_reduce arr T reduce_order = Inr r"
proof -
  have T: "0 < T" using assms(1) by simp
  show ?thesis
    using T assms(2-5)
    by (simp add: single_thread_sum_eq multi_thread_sum_lock_eq multi_thread_sum_atomic_eq
        multi_thread_sum_reduce_eq uint_sum_list)
qed

theorem overflow_wraps_identically_witness:
  "(1::nat) \<le> 2 \<and> is_size_t (length [2147483647, 1 :: int32])
   \<and> schedule 2 [1, 0] \<and> schedule 2 [0, 1]
   \<and> (\<Sum>x\<leftarrow>[2147483647, 1 :: int32]. sint x) = 2147483648
   \<and> single_thread_sum [2147483647, 1] =
        Inr \<lparr>arr_of = [2147483647, 1], sum_of = - 2147483648\<rparr>
   \<and> multi_thread_sum_lock [2147483647, 1] 2 [1, 0] =
        Inr \<lparr>arr_of = [2147483647, 1], sum_of = - 2147483648\<rparr>
   \<and> multi_thread_sum_atomic [2147483647, 1] 2 [0, 1] =
        Inr \<lparr>arr_of = [2147483647, 1], sum_of = - 2147483648\<rparr>
   \<and> multi_thread_sum_reduce [2147483647, 1] 2 [1, 0] =
        Inr \<lparr>arr_of = [2147483647, 1], sum_of = - 2147483648\<rparr>"
proof -
  have h1: "(1::nat) \<le> 2" by simp
  have h2: "is_size_t (length [2147483647, 1 :: int32])" by (simp add: is_size_t_def)
  have s1: "schedule 2 [1, 0]" by (simp add: schedule_def eval_nat_numeral)
  have s2: "schedule 2 [0, 1]" by (simp add: schedule_def eval_nat_numeral)
  have t: "(\<Sum>x\<leftarrow>[2147483647, 1 :: int32]. sint x) = 2147483648" by simp
  have e: "single_thread_sum [2147483647, 1] =
        Inr \<lparr>arr_of = [2147483647, 1], sum_of = - 2147483648\<rparr>"
    by (simp add: single_thread_sum_def sum_loop.simps)
  show ?thesis
    using overflow_wraps_identically [OF h1 h2 s1 s2 s1] h1 h2 s1 s2 t e by auto
qed

section \<open>The scenario of eight elements\<close>

text \<open>
  Claim C8 (scenario). For \<open>arr = [1,2,3,4,5,6,7,8]\<close> and \<open>T = 4\<close> the chunks are
  \<open>[0,2)\<close>, \<open>[2,4)\<close>, \<open>[4,6)\<close>, \<open>[6,8)\<close>, the local sums of the workers are
  3, 7, 11, 15, and the baseline and the three parallel strategies, in any commit
  order, return 36.
\<close>

theorem scenario_eight_elements:
  assumes "schedule 4 lock_order" "schedule 4 atomic_order" "schedule 4 reduce_order"
  shows "chunk_bounds 8 4 0 = Inr (0, 2) \<and> chunk_bounds 8 4 1 = Inr (2, 4)
       \<and> chunk_bounds 8 4 2 = Inr (4, 6) \<and> chunk_bounds 8 4 3 = Inr (6, 8)
       \<and> local_sum 0 [1, 2, 3, 4, 5, 6, 7, 8] 4 = Inr 3
       \<and> local_sum 1 [1, 2, 3, 4, 5, 6, 7, 8] 4 = Inr 7
       \<and> local_sum 2 [1, 2, 3, 4, 5, 6, 7, 8] 4 = Inr 11
       \<and> local_sum 3 [1, 2, 3, 4, 5, 6, 7, 8] 4 = Inr 15
       \<and> single_thread_sum [1, 2, 3, 4, 5, 6, 7, 8] =
            Inr \<lparr>arr_of = [1, 2, 3, 4, 5, 6, 7, 8], sum_of = 36\<rparr>
       \<and> multi_thread_sum_lock [1, 2, 3, 4, 5, 6, 7, 8] 4 lock_order =
            Inr \<lparr>arr_of = [1, 2, 3, 4, 5, 6, 7, 8], sum_of = 36\<rparr>
       \<and> multi_thread_sum_atomic [1, 2, 3, 4, 5, 6, 7, 8] 4 atomic_order =
            Inr \<lparr>arr_of = [1, 2, 3, 4, 5, 6, 7, 8], sum_of = 36\<rparr>
       \<and> multi_thread_sum_reduce [1, 2, 3, 4, 5, 6, 7, 8] 4 reduce_order =
            Inr \<lparr>arr_of = [1, 2, 3, 4, 5, 6, 7, 8], sum_of = 36\<rparr>"
proof -
  let ?arr = "[1, 2, 3, 4, 5, 6, 7, 8] :: int32 list"
  have b: "chunk_bounds 8 4 0 = Inr (0, 2)" "chunk_bounds 8 4 1 = Inr (2, 4)"
    "chunk_bounds 8 4 2 = Inr (4, 6)" "chunk_bounds 8 4 3 = Inr (6, 8)"
    by (simp_all add: chunk_bounds_def size_t_def)
  have l: "local_sum 0 ?arr 4 = Inr 3" "local_sum 1 ?arr 4 = Inr 7"
    "local_sum 2 ?arr 4 = Inr 11" "local_sum 3 ?arr 4 = Inr 15"
    by (simp_all add: local_sum_def chunk_bounds_def size_t_def sum_loop.simps)
  have T: "(0::nat) < 4" by simp
  have n: "is_size_t (length ?arr)" by (simp add: is_size_t_def)
  have s: "sum_list ?arr = 36" by simp
  have "single_thread_sum ?arr = Inr \<lparr>arr_of = ?arr, sum_of = 36\<rparr>"
    using single_thread_sum_eq [of ?arr] s by simp
  moreover have "multi_thread_sum_lock ?arr 4 lock_order = Inr \<lparr>arr_of = ?arr, sum_of = 36\<rparr>"
    using multi_thread_sum_lock_eq [OF T n assms(1)] s by simp
  moreover have "multi_thread_sum_atomic ?arr 4 atomic_order = Inr \<lparr>arr_of = ?arr, sum_of = 36\<rparr>"
    using multi_thread_sum_atomic_eq [OF T n assms(2)] s by simp
  moreover have "multi_thread_sum_reduce ?arr 4 reduce_order = Inr \<lparr>arr_of = ?arr, sum_of = 36\<rparr>"
    using multi_thread_sum_reduce_eq [OF T n assms(3)] s by simp
  ultimately show ?thesis using b l by simp
qed

theorem scenario_eight_elements_witness:
  "schedule 4 [0, 1, 2, 3] \<and> schedule 4 [3, 1, 0, 2] \<and> schedule 4 [2, 3, 1, 0]
   \<and> local_sum 2 [1, 2, 3, 4, 5, 6, 7, 8] 4 = Inr 11
   \<and> multi_thread_sum_lock [1, 2, 3, 4, 5, 6, 7, 8] 4 [0, 1, 2, 3] =
        Inr \<lparr>arr_of = [1, 2, 3, 4, 5, 6, 7, 8], sum_of = 36\<rparr>
   \<and> multi_thread_sum_atomic [1, 2, 3, 4, 5, 6, 7, 8] 4 [3, 1, 0, 2] =
        Inr \<lparr>arr_of = [1, 2, 3, 4, 5, 6, 7, 8], sum_of = 36\<rparr>
   \<and> multi_thread_sum_reduce [1, 2, 3, 4, 5, 6, 7, 8] 4 [2, 3, 1, 0] =
        Inr \<lparr>arr_of = [1, 2, 3, 4, 5, 6, 7, 8], sum_of = 36\<rparr>"
proof -
  have s1: "schedule 4 [0, 1, 2, 3]" by (simp add: schedule_def eval_nat_numeral)
  have s2: "schedule 4 [3, 1, 0, 2]" by (simp add: schedule_def eval_nat_numeral)
  have s3: "schedule 4 [2, 3, 1, 0]" by (simp add: schedule_def eval_nat_numeral)
  show ?thesis
    using scenario_eight_elements [OF s1 s2 s3] s1 s2 s3 by simp
qed

section \<open>No worker writes to the array\<close>

lemma thread_sum_lock_frame:
  "thread_sum_lock idx m T = Inr m' \<Longrightarrow> arr_of m' = arr_of m"
  by (auto simp: thread_sum_lock_def split: sum.splits)

lemma thread_sum_atomic_frame:
  "thread_sum_atomic idx m T = Inr m' \<Longrightarrow> arr_of m' = arr_of m"
  by (auto simp: thread_sum_atomic_def split: sum.splits)

lemma reduce_worker_frame:
  "reduce_worker T idx m = Inr m' \<Longrightarrow> arr_in m' = arr_in m"
  by (auto simp: reduce_worker_def split: sum.splits if_splits)

lemma run_threads_frame:
  assumes "\<And>idx m m'. worker idx m = Inr m' \<Longrightarrow> f m' = f m"
  shows "run_threads worker sched m = Inr m' \<Longrightarrow> f m' = f m"
proof (induction sched arbitrary: m)
  case Nil
  then show ?case by simp
next
  case (Cons idx sched)
  then obtain m1 where w: "worker idx m = Inr m1" and r: "run_threads worker sched m1 = Inr m'"
    by (auto split: sum.splits)
  have "f m' = f m1" using r by (rule Cons.IH)
  also have "f m1 = f m" using w by (rule assms)
  finally show ?case .
qed

lemma multi_thread_sum_lock_frame:
  "multi_thread_sum_lock arr T sched = Inr r \<Longrightarrow> arr_of r = arr"
  using run_threads_frame [of "\<lambda>idx m. thread_sum_lock idx m T" arr_of sched
      "\<lparr>arr_of = arr, sum_of = 0\<rparr>" r]
  by (simp add: multi_thread_sum_lock_def thread_sum_lock_frame)

lemma multi_thread_sum_atomic_frame:
  "multi_thread_sum_atomic arr T sched = Inr r \<Longrightarrow> arr_of r = arr"
  using run_threads_frame [of "\<lambda>idx m. thread_sum_atomic idx m T" arr_of sched
      "\<lparr>arr_of = arr, sum_of = 0\<rparr>" r]
  by (simp add: multi_thread_sum_atomic_def thread_sum_atomic_frame split: if_splits)

lemma multi_thread_sum_reduce_frame:
  assumes "multi_thread_sum_reduce arr T sched = Inr r"
  shows "arr_of r = arr"
proof -
  obtain m where m: "run_threads (reduce_worker T) sched
      \<lparr>arr_in = arr, partial_sums = replicate T 0\<rparr> = Inr m"
    and r: "arr_of r = arr_in m"
    using assms by (auto simp: multi_thread_sum_reduce_def split: if_splits sum.splits)
  have "arr_in m = arr_in \<lparr>arr_in = arr, partial_sums = replicate T 0\<rparr>"
    using m by (rule run_threads_frame [rotated]) (rule reduce_worker_frame)
  then show ?thesis using r by simp
qed

lemma single_thread_sum_frame:
  "single_thread_sum arr = Inr r \<Longrightarrow> arr_of r = arr"
  by (auto simp: single_thread_sum_def split: sum.splits)

text \<open>
  Claim C9 (frame). For every array and every \<open>T \<ge> 1\<close>, each of the four summation
  functions returns, and the array after the call is the array before the call, in
  any commit order of the workers.
\<close>

theorem array_unchanged:
  assumes "1 \<le> T" "is_size_t (length arr)"
    and "schedule T lock_order" "schedule T atomic_order" "schedule T reduce_order"
  shows "(\<exists>r. single_thread_sum arr = Inr r \<and> arr_of r = arr)
       \<and> (\<exists>r. multi_thread_sum_lock arr T lock_order = Inr r \<and> arr_of r = arr)
       \<and> (\<exists>r. multi_thread_sum_atomic arr T atomic_order = Inr r \<and> arr_of r = arr)
       \<and> (\<exists>r. multi_thread_sum_reduce arr T reduce_order = Inr r \<and> arr_of r = arr)"
proof -
  have T: "0 < T" using assms(1) by simp
  obtain r0 where r0: "single_thread_sum arr = Inr r0"
    by (simp add: single_thread_sum_eq)
  obtain r1 where r1: "multi_thread_sum_lock arr T lock_order = Inr r1"
    using T assms(2,3) by (simp add: multi_thread_sum_lock_eq)
  obtain r2 where r2: "multi_thread_sum_atomic arr T atomic_order = Inr r2"
    using T assms(2,4) by (simp add: multi_thread_sum_atomic_eq)
  obtain r3 where r3: "multi_thread_sum_reduce arr T reduce_order = Inr r3"
    using T assms(2,5) by (simp add: multi_thread_sum_reduce_eq)
  show ?thesis
    using r0 r1 r2 r3 single_thread_sum_frame [OF r0] multi_thread_sum_lock_frame [OF r1]
      multi_thread_sum_atomic_frame [OF r2] multi_thread_sum_reduce_frame [OF r3]
    by simp
qed

theorem array_unchanged_witness:
  "(1::nat) \<le> 2 \<and> is_size_t (length [5, 6, 7 :: int32])
   \<and> schedule 2 [1, 0] \<and> schedule 2 [0, 1]
   \<and> (\<exists>r. single_thread_sum [5, 6, 7] = Inr r \<and> arr_of r = [5, 6, 7])
   \<and> (\<exists>r. multi_thread_sum_lock [5, 6, 7] 2 [1, 0] = Inr r \<and> arr_of r = [5, 6, 7])
   \<and> (\<exists>r. multi_thread_sum_atomic [5, 6, 7] 2 [0, 1] = Inr r \<and> arr_of r = [5, 6, 7])
   \<and> (\<exists>r. multi_thread_sum_reduce [5, 6, 7] 2 [1, 0] = Inr r \<and> arr_of r = [5, 6, 7])"
proof -
  have h1: "(1::nat) \<le> 2" by simp
  have h2: "is_size_t (length [5, 6, 7 :: int32])" by (simp add: is_size_t_def)
  have s1: "schedule 2 [1, 0]" by (simp add: schedule_def eval_nat_numeral)
  have s2: "schedule 2 [0, 1]" by (simp add: schedule_def eval_nat_numeral)
  show ?thesis
    using array_unchanged [OF h1 h2 s1 s2 s1] h1 h2 s1 s2 by simp
qed

section \<open>More threads than elements\<close>

text \<open>
  Claim C10 (more threads than elements). When \<open>T > n\<close> and \<open>n > 0\<close>, the chunk size
  \<open>n / T\<close> is 0, every worker but the last gets the empty chunk \<open>[0, 0)\<close> and
  sums to 0, and the last worker gets \<open>[0, n)\<close> and sums the whole array.
\<close>

theorem more_threads_than_elements:
  assumes "arr \<noteq> []" "length arr < T"
  shows "length arr div T = 0
       \<and> (\<forall>i. i < T - 1 \<longrightarrow>
             chunk_bounds (length arr) T i = Inr (0, 0) \<and> local_sum i arr T = Inr 0)
       \<and> chunk_bounds (length arr) T (T - 1) = Inr (0, length arr)
       \<and> local_sum (T - 1) arr T = Inr (sum_list arr)"
proof -
  have c: "length arr div T = 0" using assms(2) by simp
  have T: "T \<noteq> 0" using assms(2) by simp
  have a: "chunk_bounds (length arr) T i = Inr (0, 0)" if "i < T - 1" for i
    using that T c by (simp add: chunk_bounds_def size_t_def)
  have b: "chunk_bounds (length arr) T (T - 1) = Inr (0, length arr)"
    using T c by (simp add: chunk_bounds_def size_t_def)
  have "local_sum i arr T = Inr 0" if "i < T - 1" for i
    using a [OF that] by (simp add: local_sum_def sum_loop.simps)
  moreover have "local_sum (T - 1) arr T = Inr (sum_list arr)"
    using b by (simp add: local_sum_def sum_loop_all)
  ultimately show ?thesis using a b c by simp
qed

theorem more_threads_than_elements_witness:
  "[10, 20, 30 :: int32] \<noteq> [] \<and> length [10, 20, 30 :: int32] < 8
   \<and> chunk_bounds (length [10, 20, 30 :: int32]) 8 0 = Inr (0, 0)
   \<and> chunk_bounds (length [10, 20, 30 :: int32]) 8 6 = Inr (0, 0)
   \<and> chunk_bounds (length [10, 20, 30 :: int32]) 8 7 = Inr (0, 3)
   \<and> local_sum 6 [10, 20, 30] 8 = Inr 0
   \<and> local_sum 7 [10, 20, 30] 8 = Inr 60"
proof -
  have h1: "[10, 20, 30 :: int32] \<noteq> []" by simp
  have h2: "length [10, 20, 30 :: int32] < 8" by simp
  note t = more_threads_than_elements [OF h1 h2]
  from t have a: "\<forall>i. i < 8 - 1 \<longrightarrow>
      chunk_bounds (length [10, 20, 30 :: int32]) 8 i = Inr (0, 0)
      \<and> local_sum i [10, 20, 30] 8 = Inr 0"
    by blast
  have a0: "chunk_bounds (length [10, 20, 30 :: int32]) 8 0 = Inr (0, 0)"
    using a [rule_format, of 0] by simp
  have a6: "chunk_bounds (length [10, 20, 30 :: int32]) 8 6 = Inr (0, 0)
      \<and> local_sum 6 [10, 20, 30] 8 = Inr 0"
    using a [rule_format, of 6] by simp
  from t have b: "chunk_bounds (length [10, 20, 30 :: int32]) 8 (8 - 1) =
      Inr (0, length [10, 20, 30 :: int32])
      \<and> local_sum (8 - 1) [10, 20, 30] 8 = Inr (sum_list [10, 20, 30])"
    by blast
  show ?thesis using h1 h2 a0 a6 b by simp
qed

section \<open>Parsing the command line\<close>

lemma stoi_no_digit:
  assumes "\<not> isspace c" "\<not> isdigit c" "c \<noteq> CHR ''-''" "c \<noteq> CHR ''+''"
  shows "stoi (c # cs) = Inl InvalidArgument"
  using assms by (simp add: stoi_def)

text \<open>
  Claim C6 (defaults), as the code has it. When \<open>--size\<close> or \<open>--thread\<close> is
  absent, \<open>parse_args\<close> logs one warning and returns the size 1,000,000 and, as the
  thread count, the hardware concurrency hint as it is: no fallback to 1 is applied.
\<close>

theorem parse_args_defaults:
  assumes "\<not> is_present args ''--size'' \<or> \<not> is_present args ''--thread''"
  shows "parse_args hardware_concurrency args =
           Inr \<lparr>cfg_log = [''Warning: Missing required arguments. Using default values.''],
                cfg_size = 1000000, cfg_threads = hardware_concurrency\<rparr>"
  using assms by (auto simp: parse_args_def)

theorem parse_args_defaults_witness:
  "is_present size_only ''--size'' \<and> \<not> is_present size_only ''--thread''
   \<and> parse_args 8 size_only =
        Inr \<lparr>cfg_log = [''Warning: Missing required arguments. Using default values.''],
             cfg_size = 1000000, cfg_threads = 8\<rparr>"
proof -
  have p: "is_present size_only ''--size''" by (simp add: size_only_def)
  have a: "\<not> is_present size_only ''--thread''" by (simp add: size_only_def)
  then have h: "\<not> is_present size_only ''--size'' \<or> \<not> is_present size_only ''--thread''"
    by simp
  show ?thesis using parse_args_defaults [OF h, of 8] p a by simp
qed

text \<open>
  The claim as the specification states it fails: with no option on the command line
  and a hardware concurrency hint of 0 (the value of
  \<open>std::thread::hardware_concurrency()\<close> when the number of hardware threads cannot be
  determined), the thread count returned is 0, not 1.
\<close>

theorem parse_args_no_fallback:
  "parse_args 0 no_options =
     Inr \<lparr>cfg_log = [''Warning: Missing required arguments. Using default values.''],
          cfg_size = 1000000, cfg_threads = 0\<rparr>
   \<and> parse_args 0 no_options \<noteq>
     Inr \<lparr>cfg_log = [''Warning: Missing required arguments. Using default values.''],
          cfg_size = 1000000, cfg_threads = 1\<rparr>"
  by (simp add: parse_args_def no_options_def)

text \<open>
  Claim C7 (malformed values), as the code has it. When both options are present with
  a value each, \<open>parse_args\<close> substitutes no default and logs no warning: an
  exception of \<open>std::stoi\<close> on the first value of \<open>--size\<close>, or else on the first
  value of \<open>--thread\<close>, leaves \<open>parse_args\<close>, and otherwise the two numbers read
  are returned as they are. A value of \<open>--size\<close> that starts with a character other
  than white space, a sign or a digit makes it throw \<open>std::invalid_argument\<close>.
\<close>

theorem parse_args_no_recovery:
  assumes "is_present args ''--size''" "is_present args ''--thread''"
    and "get_options args ''--size'' = s # ss" "get_options args ''--thread'' = t # ts"
  shows "(stoi s = Inl e \<longrightarrow> parse_args hw args = Inl e)
       \<and> (stoi s = Inr a \<and> stoi t = Inl e \<longrightarrow> parse_args hw args = Inl e)
       \<and> (stoi s = Inr a \<and> stoi t = Inr b \<longrightarrow>
            parse_args hw args = Inr \<lparr>cfg_log = [], cfg_size = a, cfg_threads = b\<rparr>)
       \<and> (s = c # cs \<and> \<not> isspace c \<and> \<not> isdigit c \<and> c \<noteq> CHR ''-'' \<and> c \<noteq> CHR ''+'' \<longrightarrow>
            parse_args hw args = Inl InvalidArgument)"
proof -
  have 1: "parse_args hw args = Inl e" if "stoi s = Inl e"
    using assms that by (simp add: parse_args_def)
  have 2: "parse_args hw args = Inl e" if "stoi s = Inr a" "stoi t = Inl e"
    using assms that by (simp add: parse_args_def)
  have 3: "parse_args hw args = Inr \<lparr>cfg_log = [], cfg_size = a, cfg_threads = b\<rparr>"
    if "stoi s = Inr a" "stoi t = Inr b"
    using assms that by (simp add: parse_args_def)
  have 4: "parse_args hw args = Inl InvalidArgument"
    if "s = c # cs" "\<not> isspace c" "\<not> isdigit c" "c \<noteq> CHR ''-''" "c \<noteq> CHR ''+''"
  proof -
    have "stoi s = Inl InvalidArgument" using that by (simp add: stoi_no_digit)
    then show ?thesis using assms by (simp add: parse_args_def)
  qed
  show ?thesis using 1 2 3 4 by blast
qed

theorem parse_args_no_recovery_witness:
  "is_present thread_x4 ''--size'' \<and> is_present thread_x4 ''--thread''
   \<and> get_options thread_x4 ''--size'' = [''1000''] \<and> get_options thread_x4 ''--thread'' = [''x4'']
   \<and> stoi ''1000'' = Inr 1000 \<and> stoi ''x4'' = Inl InvalidArgument
   \<and> parse_args 8 thread_x4 = Inl InvalidArgument
   \<and> parse_args 8 size_1000_thread_4 = Inr \<lparr>cfg_log = [], cfg_size = 1000, cfg_threads = 4\<rparr>"
proof -
  have p1: "is_present thread_x4 ''--size''" and p2: "is_present thread_x4 ''--thread''"
    by (simp_all add: thread_x4_def)
  have g1: "get_options thread_x4 ''--size'' = [''1000'']"
    and g2: "get_options thread_x4 ''--thread'' = [''x4'']"
    by (simp_all add: thread_x4_def)
  have q1: "is_present size_1000_thread_4 ''--size''"
    and q2: "is_present size_1000_thread_4 ''--thread''"
    by (simp_all add: size_1000_thread_4_def)
  have k1: "get_options size_1000_thread_4 ''--size'' = [''1000'']"
    and k2: "get_options size_1000_thread_4 ''--thread'' = [''4'']"
    by (simp_all add: size_1000_thread_4_def)
  have v1: "stoi ''1000'' = Inr 1000" and v2: "stoi ''x4'' = Inl InvalidArgument"
    and v3: "stoi ''4'' = Inr 4"
    by (simp_all add: stoi_def isspace_def isdigit_def)
  have "parse_args 8 thread_x4 = Inl InvalidArgument"
    using parse_args_no_recovery [OF p1 p2 g1 g2, of InvalidArgument 8 1000] v1 v2 by simp
  moreover have "parse_args 8 size_1000_thread_4 =
      Inr \<lparr>cfg_log = [], cfg_size = 1000, cfg_threads = 4\<rparr>"
    using parse_args_no_recovery [OF q1 q2 k1 k2, of InvalidArgument 8 1000 4] v1 v3 by simp
  ultimately show ?thesis using p1 p2 g1 g2 v1 v2 by simp
qed

text \<open>
  The claim as the specification states it fails: on
  \<^verbatim>\<open>./sum --size abc --thread 4\<close> the call \<open>std::stoi("abc")\<close> throws
  \<open>std::invalid_argument\<close>, which nothing catches, and the defaults are not
  returned.
\<close>

theorem parse_args_malformed_throws:
  "parse_args 8 size_abc = Inl InvalidArgument
   \<and> parse_args 8 size_abc \<noteq>
     Inr \<lparr>cfg_log = [''Warning: Missing required arguments. Using default values.''],
          cfg_size = 1000000, cfg_threads = 8\<rparr>"
  by (simp add: parse_args_def size_abc_def stoi_def isspace_def isdigit_def)

end
